theory Spec2Isabelle
  imports Complex_Main "HOL-Library.Log_Nat"
begin

section \<open>The Ising-model kernel of the notebook\<close>

text \<open>
  The notebook \<^verbatim>\<open>01-Principles/03 Regex.ipynb\<close> holds a Metropolis-Hastings sampler for
  the two-dimensional Ising model, once in Python (with numba's \<^verbatim>\<open>@jit\<close> on the two
  neighbour routines) and once in Cython. This theory embeds both.

  Numbers. The lattice is an integer array. \<^verbatim>\<open>delta_e\<close> and the energy series are
  doubles in the source, but every value they take is an integer of small magnitude
  (at most \<open>4 * N\<^sup>2\<close> plus \<open>8\<close> per step), which a double represents exactly: they are
  \<open>int\<close> here. The acceptance test \<^verbatim>\<open>exp(-beta*dE) > rand()\<close> is taken over the reals.

  Randomness. The three random sources are inputs of the model: the initial lattice
  returned by \<^verbatim>\<open>np.random.choice([-1,1], size=(N,N))\<close>, and for every step \<open>s\<close> the triple
  \<open>draws s = (randx, randy, u)\<close> of the two site indices and the uniform number; \<open>u\<close> is
  looked at only where the source reaches \<^verbatim>\<open>rand()\<close>, that is when \<open>dE < 0\<close> is false.
\<close>

subsection \<open>Errors and array access\<close>

datatype error = ValueError | IndexError | ZeroDivisionError | OutOfBounds

text \<open>
  \<open>ValueError\<close>, \<open>IndexError\<close> and \<open>ZeroDivisionError\<close> are the Python exceptions.
  \<open>OutOfBounds\<close> is an access outside the array in the Cython cell, which is compiled with
  \<^verbatim>\<open>boundscheck(False)\<close> and \<^verbatim>\<open>wraparound(False)\<close>: nothing is raised there and the value
  read is not defined by the source, so the model stops with this outcome.
\<close>

type_synonym lattice = "int list list"

definition ebind :: "error + 'a \<Rightarrow> ('a \<Rightarrow> error + 'b) \<Rightarrow> error + 'b" where
  "ebind m f = (case m of Inl e \<Rightarrow> Inl e | Inr x \<Rightarrow> f x)"

text \<open>
  NumPy indexing along one axis of length \<open>n\<close>: \<open>0 \<le> k < n\<close> is position \<open>k\<close>, a negative
  \<open>k \<ge> -n\<close> counts from the end, anything else raises \<^verbatim>\<open>IndexError\<close>. The numba-compiled
  functions \<^verbatim>\<open>calc_positional_e\<close> and \<^verbatim>\<open>delta_e\<close> keep the wrap of negative indices; numba
  leaves out the range check by default, and there an out-of-range read has no defined
  value. The model follows NumPy and raises.
\<close>

definition index :: "nat \<Rightarrow> int \<Rightarrow> error + nat" where
  "index n k =
     (if 0 \<le> k \<and> k < int n then Inr (nat k)
      else if - int n \<le> k \<and> k < 0 then Inr (nat (k + int n))
      else Inl IndexError)"

definition getitem :: "'a list \<Rightarrow> int \<Rightarrow> error + 'a" where
  "getitem xs k = ebind (index (length xs) k) (\<lambda>a. Inr (xs ! a))"

definition setitem :: "'a list \<Rightarrow> int \<Rightarrow> 'a \<Rightarrow> error + 'a list" where
  "setitem xs k v = ebind (index (length xs) k) (\<lambda>a. Inr (xs[a := v]))"

text \<open>\<^verbatim>\<open>spins[i,j]\<close> on the two-dimensional array, read and write.\<close>

definition getitem2 :: "lattice \<Rightarrow> int \<Rightarrow> int \<Rightarrow> error + int" where
  "getitem2 spins i j = ebind (getitem spins i) (\<lambda>row. getitem row j)"

definition setitem2 :: "lattice \<Rightarrow> int \<Rightarrow> int \<Rightarrow> int \<Rightarrow> error + lattice" where
  "setitem2 spins i j v =
     ebind (getitem spins i) (\<lambda>row.
     ebind (setitem row j v) (\<lambda>row'.
     setitem spins i row'))"

text \<open>Two reads one after the other, as in each branch of the neighbour routines.\<close>

definition read2 :: "lattice \<Rightarrow> int \<Rightarrow> int \<Rightarrow> int \<Rightarrow> int \<Rightarrow> error + (int \<times> int)" where
  "read2 spins a b c d =
     ebind (getitem2 spins a b) (\<lambda>x.
     ebind (getitem2 spins c d) (\<lambda>y. Inr (x, y)))"

text \<open>A loop that fills a list and stops at the first exception.\<close>

fun collect :: "(error + 'a) list \<Rightarrow> error + 'a list" where
  "collect [] = Inr []"
| "collect (m # ms) = ebind m (\<lambda>x. ebind (collect ms) (\<lambda>xs. Inr (x # xs)))"

subsection \<open>The lattice\<close>

text \<open>An \<open>N \<times> N\<close> grid with every cell \<open>-1\<close> or \<open>+1\<close>.\<close>

definition is_lattice :: "int \<Rightarrow> lattice \<Rightarrow> bool" where
  "is_lattice N spins \<longleftrightarrow>
     int (length spins) = N \<and>
     (\<forall>row \<in> set spins. int (length row) = N \<and> (\<forall>x \<in> set row. x = 1 \<or> x = - 1))"

subsection \<open>Python: \<^verbatim>\<open>calc_positional_e\<close>, \<^verbatim>\<open>delta_e\<close>, \<^verbatim>\<open>total_mag_e\<close>\<close>

text \<open>
  The body of the double loop of \<^verbatim>\<open>calc_positional_e\<close> at one cell. Its third row branch
  (\<open>i\<close> neither \<open>0\<close> nor \<open>N-1\<close>) reads \<^verbatim>\<open>spins[i,j-1]\<close> and \<^verbatim>\<open>spins[i,j+1]\<close>, as the source
  has it.
\<close>

definition positional_e_at :: "lattice \<Rightarrow> int \<Rightarrow> int \<Rightarrow> error + int" where
  "positional_e_at spins i j =
     (let N = int (length spins) in
      ebind (if i = 0 then read2 spins (N - 1) j (i + 1) j
             else if i = N - 1 then read2 spins (i - 1) j 0 j
             else read2 spins i (j - 1) i (j + 1)) (\<lambda>(spin_l, spin_r).
      ebind (if j = 0 then read2 spins i (N - 1) i (j + 1)
             else if j = N - 1 then read2 spins i (j - 1) i 0
             else read2 spins i (j - 1) i (j + 1)) (\<lambda>(spin_u, spin_d).
      Inr (spin_l + spin_r + spin_u + spin_d))))"

text \<open>
  \<^verbatim>\<open>calc_positional_e(spins, J)\<close>: the array \<open>E\<close> of the same shape, filled row by row; \<open>J\<close>
  is a parameter the source never uses.
\<close>

definition calc_positional_e :: "lattice \<Rightarrow> int \<Rightarrow> error + lattice" where
  "calc_positional_e spins J =
     (let N = length spins in
      collect (map (\<lambda>i. collect (map (\<lambda>j. positional_e_at spins (int i) (int j)) [0..<N]))
                   [0..<N]))"

definition delta_e :: "lattice \<Rightarrow> int \<Rightarrow> int \<Rightarrow> int \<Rightarrow> error + int" where
  "delta_e spins i j J =
     (let N = int (length spins) in
      ebind (if i = 0 then read2 spins (N - 1) j (i + 1) j
             else if i = N - 1 then read2 spins (i - 1) j 0 j
             else read2 spins (i - 1) j (i + 1) j) (\<lambda>(spin_l, spin_r).
      ebind (if j = 0 then read2 spins i (N - 1) i (j + 1)
             else if j = N - 1 then read2 spins i (j - 1) i 0
             else read2 spins i (j - 1) i (j + 1)) (\<lambda>(spin_u, spin_d).
      ebind (getitem2 spins i j) (\<lambda>s.
      Inr (2 * J * s * (spin_l + spin_r + spin_u + spin_d))))))"

text \<open>\<^verbatim>\<open>total_mag_e(spins, J) = -J*np.sum(calc_positional_e(spins, J))\<close>.\<close>

definition total_mag_e :: "lattice \<Rightarrow> int \<Rightarrow> error + int" where
  "total_mag_e spins J =
     ebind (calc_positional_e spins J) (\<lambda>E. Inr (- J * sum_list (map sum_list E)))"

subsection \<open>The neighbour sum of the specification\<close>

text \<open>
  The periodic four-neighbour sum in the specification's words: the cells above, below,
  left and right of \<open>(i, j)\<close>, every index taken modulo \<open>N\<close>.
\<close>

definition cell :: "lattice \<Rightarrow> int \<Rightarrow> int \<Rightarrow> int" where
  "cell spins i j = spins ! nat i ! nat j"

definition neighborSum :: "lattice \<Rightarrow> int \<Rightarrow> int \<Rightarrow> int" where
  "neighborSum spins i j =
     (let N = int (length spins) in
      cell spins ((i - 1) mod N) j + cell spins ((i + 1) mod N) j
      + cell spins i ((j - 1) mod N) + cell spins i ((j + 1) mod N))"

subsection \<open>Python: \<^verbatim>\<open>metropolis_hastings\<close>\<close>

text \<open>
  The library calls of the prologue and of the loop. \<^verbatim>\<open>np.random.choice\<close> with a negative
  size and \<^verbatim>\<open>np.ones\<close> with a negative length raise \<^verbatim>\<open>ValueError\<close>, and so does
  \<^verbatim>\<open>np.random.randint(N)\<close> with \<open>N \<le> 0\<close>. What they return otherwise is the model's
  input: \<open>init\<close> stands for the array drawn by \<^verbatim>\<open>choice\<close>, \<open>r\<close> for the integer drawn by
  \<^verbatim>\<open>randint\<close>.
\<close>

type_synonym draw = "int \<times> int \<times> real"
type_synonym state = "lattice \<times> int list"

definition random_choice :: "int \<Rightarrow> lattice \<Rightarrow> error + lattice" where
  "random_choice N init = (if N < 0 then Inl ValueError else Inr init)"

definition ones :: "int \<Rightarrow> error + int list" where
  "ones n = (if n < 0 then Inl ValueError else Inr (replicate (nat n) 1))"

definition randint :: "int \<Rightarrow> int \<Rightarrow> error + int" where
  "randint N r = (if N \<le> 0 then Inl ValueError else Inr r)"

text \<open>
  The four statements before the loop: the lattice, \<open>J = 1\<close>, the series of ones, and
  \<^verbatim>\<open>E_series[0] = total_mag_e(spins, J)\<close> (the right-hand side is evaluated first).
\<close>

definition mh_init :: "int \<Rightarrow> int \<Rightarrow> lattice \<Rightarrow> error + state" where
  "mh_init N n_steps init =
     ebind (random_choice N init) (\<lambda>spins.
     let J = 1 in
     ebind (ones n_steps) (\<lambda>E_series.
     ebind (total_mag_e spins J) (\<lambda>E0.
     ebind (setitem E_series 0 E0) (\<lambda>E_series'.
     Inr (spins, E_series')))))"

text \<open>The body of the loop at step \<open>s\<close>.\<close>

definition mh_step :: "int \<Rightarrow> real \<Rightarrow> int \<Rightarrow> (nat \<Rightarrow> draw) \<Rightarrow> nat \<Rightarrow> state \<Rightarrow> error + state" where
  "mh_step N beta J draws s st =
     (case (draws s, st) of ((rx, ry, u), (spins, E_series)) \<Rightarrow>
      ebind (randint N rx) (\<lambda>randx.
      ebind (randint N ry) (\<lambda>randy.
      ebind (delta_e spins randx randy J) (\<lambda>dE.
      if dE < 0 \<or> exp (- beta * real_of_int dE) > u then
        ebind (getitem2 spins randx randy) (\<lambda>v.
        ebind (setitem2 spins randx randy (v * - 1)) (\<lambda>spins'.
        ebind (getitem E_series (int s - 1)) (\<lambda>e.
        ebind (setitem E_series (int s) (e + dE)) (\<lambda>E_series'.
        Inr (spins', E_series')))))
      else
        ebind (getitem E_series (int s - 1)) (\<lambda>e.
        ebind (setitem E_series (int s) e) (\<lambda>E_series'.
        Inr (spins, E_series')))))))"

text \<open>\<^verbatim>\<open>for s in range(1, n_steps)\<close>, over the list of the step numbers.\<close>

fun mh_loop :: "int \<Rightarrow> real \<Rightarrow> int \<Rightarrow> (nat \<Rightarrow> draw) \<Rightarrow> nat list \<Rightarrow> state \<Rightarrow> error + state" where
  "mh_loop N beta J draws [] st = Inr st"
| "mh_loop N beta J draws (s # ss) st =
     ebind (mh_step N beta J draws s st) (mh_loop N beta J draws ss)"

definition metropolis_hastings ::
    "int \<Rightarrow> int \<Rightarrow> real \<Rightarrow> lattice \<Rightarrow> (nat \<Rightarrow> draw) \<Rightarrow> error + state" where
  "metropolis_hastings N n_steps beta init draws =
     ebind (mh_init N n_steps init) (mh_loop N beta 1 draws [1..<nat n_steps])"

text \<open>
  The same run stopped after its first \<open>k\<close> update steps: the state that the returned one
  is compared with in the statements below.
\<close>

definition mh_upto ::
    "nat \<Rightarrow> int \<Rightarrow> int \<Rightarrow> real \<Rightarrow> lattice \<Rightarrow> (nat \<Rightarrow> draw) \<Rightarrow> error + state" where
  "mh_upto k N n_steps beta init draws =
     ebind (mh_init N n_steps init) (mh_loop N beta 1 draws [1..<Suc k])"


subsection \<open>The bond energy of the specification\<close>





subsection \<open>Python: \<^verbatim>\<open>average_magnetization\<close>\<close>

text \<open>
  \<^verbatim>\<open>(1 / N**2) * np.sum(spins)\<close> is double-precision arithmetic: \<^verbatim>\<open>1 / N**2\<close> divides two
  Python integers into the nearest double, the integer sum is converted to a double, and
  the product is rounded to the nearest double again. Doubles are modelled by the
  rationals they denote.

  \<open>pow2 e\<close> is \<open>2\<^sup>e\<close> for an integer \<open>e\<close>, \<open>ilog2 x\<close> is \<open>\<lfloor>log\<^sub>2 x\<rfloor>\<close> for \<open>x > 0\<close>, and
  \<open>round_half_even\<close> rounds to the nearest integer, a tie to the even one.
  \<open>round_double\<close> is IEEE 754 binary64 rounding to nearest: the result is an integer
  multiple \<open>m * 2\<^sup>e\<close> with \<open>m\<close> of at most 53 bits and \<open>e \<ge> -1074\<close> (the subnormal spacing).
  Overflow to infinity is not modelled: no value below exceeds \<open>2\<^sup>6\<^sup>3\<close> in magnitude.
\<close>

definition pow2 :: "int \<Rightarrow> rat" where
  "pow2 e = (if 0 \<le> e then 2 ^ nat e else 1 / 2 ^ nat (- e))"

definition ilog2 :: "rat \<Rightarrow> int" where
  "ilog2 x = (if 1 \<le> x then bitlen \<lfloor>x\<rfloor> - 1 else - bitlen (\<lceil>1 / x\<rceil> - 1))"

definition round_half_even :: "rat \<Rightarrow> int" where
  "round_half_even y =
     (let f = \<lfloor>y\<rfloor>; r = y - of_int f in
      if r < 1 / 2 then f else if 1 / 2 < r then f + 1 else if even f then f else f + 1)"

definition round_double :: "rat \<Rightarrow> rat" where
  "round_double x =
     (if x = 0 then 0
      else let e = max (ilog2 \<bar>x\<bar> - 52) (- 1074)
           in sgn x * of_int (round_half_even (\<bar>x\<bar> / pow2 e)) * pow2 e)"

definition int_true_div :: "int \<Rightarrow> int \<Rightarrow> error + rat" where
  "int_true_div a b =
     (if b = 0 then Inl ZeroDivisionError else Inr (round_double (of_int a / of_int b)))"

definition average_magnetization :: "lattice \<Rightarrow> int \<Rightarrow> error + rat" where
  "average_magnetization spins N =
     ebind (int_true_div 1 (N ^ 2)) (\<lambda>r.
     Inr (round_double (r * round_double (of_int (sum_list (map sum_list spins))))))"

subsection \<open>Cython: the second cell\<close>

text \<open>
  The Cython cell defines \<^verbatim>\<open>calc_positional_e\<close> (one cell at a time), \<^verbatim>\<open>delta_e\<close>,
  \<^verbatim>\<open>total_mag_e\<close> and \<^verbatim>\<open>metropolis_hastings2\<close>; the first three carry the suffix \<open>_cy\<close> here.
  Array accesses are not checked and do not wrap: an index outside \<open>0 \<le> k < n\<close> is
  \<open>OutOfBounds\<close>. The site indices are \<^verbatim>\<open>int(drand48() * N)\<close>: the model takes the three
  \<^verbatim>\<open>drand48()\<close> values of a step as its input and truncates the product.
\<close>

definition raw_index :: "'a list \<Rightarrow> int \<Rightarrow> error + nat" where
  "raw_index xs k = (if 0 \<le> k \<and> k < int (length xs) then Inr (nat k) else Inl OutOfBounds)"

definition peek2 :: "lattice \<Rightarrow> int \<Rightarrow> int \<Rightarrow> error + int" where
  "peek2 spins i j =
     ebind (raw_index spins i) (\<lambda>a.
     ebind (raw_index (spins ! a) j) (\<lambda>b. Inr (spins ! a ! b)))"

definition poke2 :: "lattice \<Rightarrow> int \<Rightarrow> int \<Rightarrow> int \<Rightarrow> error + lattice" where
  "poke2 spins i j v =
     ebind (raw_index spins i) (\<lambda>a.
     ebind (raw_index (spins ! a) j) (\<lambda>b. Inr (spins[a := (spins ! a)[b := v]])))"

definition peek :: "'a list \<Rightarrow> int \<Rightarrow> error + 'a" where
  "peek xs k = ebind (raw_index xs k) (\<lambda>a. Inr (xs ! a))"

definition poke :: "'a list \<Rightarrow> int \<Rightarrow> 'a \<Rightarrow> error + 'a list" where
  "poke xs k v = ebind (raw_index xs k) (\<lambda>a. Inr (xs[a := v]))"

definition peek22 :: "lattice \<Rightarrow> int \<Rightarrow> int \<Rightarrow> int \<Rightarrow> int \<Rightarrow> error + (int \<times> int)" where
  "peek22 spins a b c d =
     ebind (peek2 spins a b) (\<lambda>x.
     ebind (peek2 spins c d) (\<lambda>y. Inr (x, y)))"

definition calc_positional_e_cy :: "lattice \<Rightarrow> int \<Rightarrow> int \<Rightarrow> int \<Rightarrow> error + int" where
  "calc_positional_e_cy spins i j J =
     (let N = int (length spins) in
      ebind (if i = 0 then peek22 spins (N - 1) j (i + 1) j
             else if i = N - 1 then peek22 spins (i - 1) j 0 j
             else peek22 spins i (j - 1) i (j + 1)) (\<lambda>(spin_l, spin_r).
      ebind (if j = 0 then peek22 spins i (N - 1) i (j + 1)
             else if j = N - 1 then peek22 spins i (j - 1) i 0
             else peek22 spins i (j - 1) i (j + 1)) (\<lambda>(spin_u, spin_d).
      Inr (spin_l + spin_r + spin_u + spin_d))))"

definition delta_e_cy :: "lattice \<Rightarrow> int \<Rightarrow> int \<Rightarrow> int \<Rightarrow> error + int" where
  "delta_e_cy spins i j J =
     ebind (peek2 spins i j) (\<lambda>s.
     ebind (calc_positional_e_cy spins i j J) (\<lambda>e.
     Inr (2 * J * s * e)))"

definition total_mag_e_cy :: "lattice \<Rightarrow> int \<Rightarrow> error + int" where
  "total_mag_e_cy spins J =
     (let N = length spins in
      ebind (collect (concat (map (\<lambda>i. map (\<lambda>j. calc_positional_e_cy spins (int i) (int j) J)
                                          [0..<N]) [0..<N]))) (\<lambda>es.
      Inr (- J * sum_list es)))"

type_synonym draw2 = "real \<times> real \<times> real"

definition c_int :: "real \<Rightarrow> int" where
  "c_int x = (if 0 \<le> x then \<lfloor>x\<rfloor> else \<lceil>x\<rceil>)"

definition mh_init2 :: "int \<Rightarrow> int \<Rightarrow> lattice \<Rightarrow> error + state" where
  "mh_init2 N n_steps init =
     ebind (ones n_steps) (\<lambda>E_series.
     ebind (random_choice N init) (\<lambda>spins.
     let J = 1 in
     ebind (total_mag_e_cy spins J) (\<lambda>E0.
     ebind (poke E_series 0 E0) (\<lambda>E_series'.
     Inr (spins, E_series')))))"

definition mh_step2 :: "int \<Rightarrow> real \<Rightarrow> int \<Rightarrow> (nat \<Rightarrow> draw2) \<Rightarrow> nat \<Rightarrow> state \<Rightarrow> error + state" where
  "mh_step2 N beta J draws s st =
     (case (draws s, st) of ((d1, d2, u), (spins, E_series)) \<Rightarrow>
      let randx = c_int (d1 * real_of_int N); randy = c_int (d2 * real_of_int N) in
      ebind (delta_e_cy spins randx randy J) (\<lambda>dE.
      if dE < 0 \<or> exp (- beta * real_of_int dE) > u then
        ebind (peek2 spins randx randy) (\<lambda>v.
        ebind (poke2 spins randx randy (v * - 1)) (\<lambda>spins'.
        ebind (peek E_series (int s - 1)) (\<lambda>e.
        ebind (poke E_series (int s) (e + dE)) (\<lambda>E_series'.
        Inr (spins', E_series')))))
      else
        ebind (peek E_series (int s - 1)) (\<lambda>e.
        ebind (poke E_series (int s) e) (\<lambda>E_series'.
        Inr (spins, E_series')))))"

fun mh_loop2 :: "int \<Rightarrow> real \<Rightarrow> int \<Rightarrow> (nat \<Rightarrow> draw2) \<Rightarrow> nat list \<Rightarrow> state \<Rightarrow> error + state" where
  "mh_loop2 N beta J draws [] st = Inr st"
| "mh_loop2 N beta J draws (s # ss) st =
     ebind (mh_step2 N beta J draws s st) (mh_loop2 N beta J draws ss)"

definition metropolis_hastings2 ::
    "int \<Rightarrow> int \<Rightarrow> real \<Rightarrow> lattice \<Rightarrow> (nat \<Rightarrow> draw2) \<Rightarrow> error + state" where
  "metropolis_hastings2 N n_steps beta init draws =
     ebind (mh_init2 N n_steps init) (mh_loop2 N beta 1 draws [1..<nat n_steps])"

subsection \<open>Observations of a run\<close>


text \<open>A random source that returns the same draw at every step.\<close>

definition always :: "'a \<Rightarrow> nat \<Rightarrow> 'a" where
  "always d s = d"

section \<open>Results as values\<close>

lemma ebind_Inr [simp]: "ebind (Inr x) f = f x"
  by (simp add: ebind_def)

lemma ebind_Inl [simp]: "ebind (Inl e) f = Inl e"
  by (simp add: ebind_def)

lemma ebind_eq_Inr: "ebind m f = Inr y \<longleftrightarrow> (\<exists>x. m = Inr x \<and> f x = Inr y)"
  by (cases m) simp_all

lemma ebind_eq_Inl: "ebind m f = Inl e \<longleftrightarrow> m = Inl e \<or> (\<exists>x. m = Inr x \<and> f x = Inl e)"
  by (cases m) simp_all


lemma ebind_return: "ebind m Inr = m"
  by (cases m) simp_all

lemma collect_Inr:
  "collect ms = Inr xs \<Longrightarrow> length xs = length ms \<and> (\<forall>k<length ms. ms ! k = Inr (xs ! k))"
proof (induction ms arbitrary: xs)
  case Nil
  then show ?case by simp
next
  case (Cons m ms)
  from Cons.prems obtain y ys where m: "m = Inr y" and ys: "collect ms = Inr ys" and xs: "xs = y # ys"
    by (auto simp: ebind_eq_Inr)
  from Cons.IH [OF ys] m xs show ?case
    by (auto simp: nth_Cons split: nat.splits)
qed

lemma collect_Inl: "collect ms = Inl e \<Longrightarrow> Inl e \<in> set ms"
  by (induction ms) (auto simp: ebind_eq_Inl)

section \<open>Array access\<close>

lemma index_Inr: "index n k = Inr a \<Longrightarrow> a < n"
  by (auto simp: index_def split: if_splits)

lemma index_nonneg: "0 \<le> k \<Longrightarrow> index n k = Inr a \<longleftrightarrow> k < int n \<and> a = nat k"
  by (auto simp: index_def)

lemma index_Inl: "index n k = Inl e \<Longrightarrow> e = IndexError"
  by (auto simp: index_def split: if_splits)

lemma getitem_Inr:
  "getitem xs k = Inr x \<Longrightarrow> \<exists>a<length xs. index (length xs) k = Inr a \<and> x = xs ! a"
  by (auto simp: getitem_def ebind_eq_Inr dest: index_Inr)

lemma setitem_Inr:
  "setitem xs k v = Inr ys \<Longrightarrow> \<exists>a<length xs. index (length xs) k = Inr a \<and> ys = xs[a := v]"
  by (auto simp: setitem_def ebind_eq_Inr dest: index_Inr)

lemma getitem2_Inr:
  assumes "getitem2 spins i j = Inr v"
  shows "\<exists>a b. a < length spins \<and> b < length (spins ! a) \<and> index (length spins) i = Inr a
           \<and> index (length (spins ! a)) j = Inr b \<and> v = spins ! a ! b"
  using assms by (auto simp: getitem2_def ebind_eq_Inr dest!: getitem_Inr)

lemma setitem2_Inr:
  assumes "setitem2 spins i j v = Inr spins'"
  shows "\<exists>a b. a < length spins \<and> b < length (spins ! a) \<and> index (length spins) i = Inr a
           \<and> index (length (spins ! a)) j = Inr b \<and> spins' = spins[a := (spins ! a)[b := v]]"
  using assms by (auto simp: setitem2_def ebind_eq_Inr dest!: getitem_Inr setitem_Inr)

lemma getitem_Inl: "getitem xs k = Inl e \<Longrightarrow> e = IndexError"
  by (auto simp: getitem_def ebind_eq_Inl dest: index_Inl)

lemma getitem2_Inl: "getitem2 spins i j = Inl e \<Longrightarrow> e = IndexError"
  by (auto simp: getitem2_def ebind_eq_Inl dest: getitem_Inl)

lemma read2_Inl: "read2 spins a b c d = Inl e \<Longrightarrow> e = IndexError"
  by (auto simp: read2_def ebind_eq_Inl dest: getitem2_Inl)

lemma lattice_length: "is_lattice N spins \<Longrightarrow> int (length spins) = N"
  by (simp add: is_lattice_def)

lemma row_length:
  "is_lattice N spins \<Longrightarrow> 0 \<le> i \<Longrightarrow> i < N \<Longrightarrow> int (length (spins ! nat i)) = N"
  by (auto simp: is_lattice_def)

lemma getitem2_in:
  assumes "is_lattice N spins" "0 \<le> i" "i < N" "0 \<le> j" "j < N"
  shows "getitem2 spins i j = Inr (cell spins i j)"
proof -
  have "int (length spins) = N"
    using assms(1) by (rule lattice_length)
  moreover have "int (length (spins ! nat i)) = N"
    using assms(1-3) by (rule row_length)
  ultimately show ?thesis
    using assms by (auto simp: getitem2_def getitem_def index_def cell_def)
qed

lemma setitem2_in:
  assumes "is_lattice N spins" "0 \<le> i" "i < N" "0 \<le> j" "j < N"
  shows "setitem2 spins i j v = Inr (spins[nat i := (spins ! nat i)[nat j := v]])"
proof -
  have "int (length spins) = N" using assms(1) by (rule lattice_length)
  moreover have "int (length (spins ! nat i)) = N" using assms(1-3) by (rule row_length)
  ultimately show ?thesis
    using assms by (auto simp: setitem2_def getitem_def setitem_def index_def)
qed

lemma read2_in:
  assumes "is_lattice N spins"
    and "0 \<le> a" "a < N" "0 \<le> b" "b < N" "0 \<le> c" "c < N" "0 \<le> d" "d < N"
  shows "read2 spins a b c d = Inr (cell spins a b, cell spins c d)"
  using assms by (simp add: read2_def getitem2_in)


section \<open>The energy change \<^verbatim>\<open>delta_e\<close>\<close>

text \<open>
  On a lattice of side at least two, \<^verbatim>\<open>delta_e\<close> returns twice \<open>J\<close> times the spin times
  the periodic neighbour sum: its three row branches and three column branches are the
  indices modulo \<open>N\<close>.
\<close>

lemma delta_e_periodic:
  assumes L: "is_lattice N spins" and N: "2 \<le> N"
    and i: "0 \<le> i" "i < N" and j: "0 \<le> j" "j < N"
  shows "delta_e spins i j J = Inr (2 * J * cell spins i j * neighborSum spins i j)"
proof -
  have len: "int (length spins) = N"
    using L by (rule lattice_length)
  have rows: "(if i = 0 then read2 spins (N - 1) j (i + 1) j
               else if i = N - 1 then read2 spins (i - 1) j 0 j
               else read2 spins (i - 1) j (i + 1) j)
        = Inr (cell spins ((i - 1) mod N) j, cell spins ((i + 1) mod N) j)"
    using L N i j by (auto simp: read2_in zmod_minus1)
  have cols: "(if j = 0 then read2 spins i (N - 1) i (j + 1)
               else if j = N - 1 then read2 spins i (j - 1) i 0
               else read2 spins i (j - 1) i (j + 1))
        = Inr (cell spins i ((j - 1) mod N), cell spins i ((j + 1) mod N))"
    using L N i j by (auto simp: read2_in zmod_minus1)
  show ?thesis
    unfolding delta_e_def Let_def len rows cols
    using L i j by (simp add: getitem2_in neighborSum_def len)
qed






section \<open>The neighbour sums of \<^verbatim>\<open>calc_positional_e\<close>\<close>

text \<open>
  In the first and in the last row the loop body of \<^verbatim>\<open>calc_positional_e\<close> is the periodic
  neighbour sum. In a row between them it adds the left and right neighbours twice, and
  in the last column of such a row it reads column \<open>N\<close>.
\<close>

lemma positional_e_at_boundary_row:
  assumes L: "is_lattice N spins" and N: "2 \<le> N" and i: "i = 0 \<or> i = N - 1"
    and j: "0 \<le> j" "j < N"
  shows "positional_e_at spins i j = Inr (neighborSum spins i j)"
proof -
  have len: "int (length spins) = N"
    using L by (rule lattice_length)
  have i': "0 \<le> i" "i < N"
    using i N by auto
  have m1: "(i - 1) mod N = (if i = 0 then N - 1 else i - 1)"
    using i' N by (simp add: zmod_minus1)
  have m2: "(i + 1) mod N = (if i = N - 1 then 0 else i + 1)"
    using i' N by simp
  have rows: "(if i = 0 then read2 spins (N - 1) j (i + 1) j
               else if i = N - 1 then read2 spins (i - 1) j 0 j
               else read2 spins i (j - 1) i (j + 1))
        = Inr (cell spins ((i - 1) mod N) j, cell spins ((i + 1) mod N) j)"
    unfolding m1 m2 using L N i j by (auto simp: read2_in)
  have cols: "(if j = 0 then read2 spins i (N - 1) i (j + 1)
               else if j = N - 1 then read2 spins i (j - 1) i 0
               else read2 spins i (j - 1) i (j + 1))
        = Inr (cell spins i ((j - 1) mod N), cell spins i ((j + 1) mod N))"
    using L N i' j by (auto simp: read2_in zmod_minus1)
  show ?thesis
    unfolding positional_e_at_def Let_def len rows cols
    by (simp add: neighborSum_def len)
qed

lemma positional_e_at_interior:
  assumes L: "is_lattice N spins" and i: "0 < i" "i < N - 1" and j: "0 < j" "j < N - 1"
  shows "positional_e_at spins i j = Inr (2 * (cell spins i (j - 1) + cell spins i (j + 1)))"
proof -
  have len: "int (length spins) = N"
    using L by (rule lattice_length)
  have r: "read2 spins i (j - 1) i (j + 1) = Inr (cell spins i (j - 1), cell spins i (j + 1))"
    using L i j by (intro read2_in [of N]) simp_all
  show ?thesis
    unfolding positional_e_at_def Let_def len using i j by (simp add: r)
qed

lemma positional_e_at_last_column:
  assumes L: "is_lattice N spins" and i: "0 < i" "i < N - 1"
  shows "positional_e_at spins i (N - 1) = Inl IndexError"
proof -
  have len: "int (length spins) = N"
    using L by (rule lattice_length)
  have row: "int (length (spins ! nat i)) = N"
    using L i by (intro row_length) simp_all
  have "getitem2 spins i (N - 1 + 1) = Inl IndexError"
    using len row i by (simp add: getitem2_def getitem_def index_def)
  moreover have "getitem2 spins i (N - 1 - 1) = Inr (cell spins i (N - 1 - 1))"
    using L i by (intro getitem2_in [of N]) simp_all
  ultimately have "read2 spins i (N - 1 - 1) i (N - 1 + 1) = Inl IndexError"
    by (simp add: read2_def)
  then show ?thesis
    unfolding positional_e_at_def Let_def len using i by simp
qed

text \<open>The neighbour routines raise nothing but \<^verbatim>\<open>IndexError\<close>.\<close>

lemma positional_e_at_Inl: "positional_e_at spins i j = Inl e \<Longrightarrow> e = IndexError"
  by (auto simp: positional_e_at_def Let_def ebind_eq_Inl split: if_splits dest: read2_Inl)

lemma calc_positional_e_Inl:
  assumes "calc_positional_e spins J = Inl e"
  shows "e = IndexError"
proof -
  from assms obtain i where
    "collect (map (\<lambda>j. positional_e_at spins (int i) (int j)) [0..<length spins]) = Inl e"
    by (auto simp: calc_positional_e_def Let_def dest!: collect_Inl)
  then obtain j where "positional_e_at spins (int i) (int j) = Inl e"
    by (auto dest!: collect_Inl)
  then show ?thesis
    by (rule positional_e_at_Inl)
qed

text \<open>What \<^verbatim>\<open>calc_positional_e\<close> returns holds the value of the loop body at every cell.\<close>

lemma calc_positional_e_Inr:
  assumes "calc_positional_e spins J = Inr E"
  shows "length E = length spins \<and> (\<forall>i<length spins. length (E ! i) = length spins \<and>
           (\<forall>j<length spins. positional_e_at spins (int i) (int j) = Inr (E ! i ! j)))"
proof -
  let ?N = "length spins"
  let ?row = "\<lambda>i. collect (map (\<lambda>j. positional_e_at spins (int i) (int j)) [0..<?N])"
  from assms have "collect (map ?row [0..<?N]) = Inr E"
    by (simp add: calc_positional_e_def Let_def)
  from collect_Inr [OF this] have len: "length E = ?N" and rows: "\<forall>i<?N. ?row i = Inr (E ! i)"
    by simp_all
  have "length (E ! i) = ?N \<and> (\<forall>j<?N. positional_e_at spins (int i) (int j) = Inr (E ! i ! j))"
    if "i < ?N" for i
  proof -
    from rows that have "?row i = Inr (E ! i)" by simp
    from collect_Inr [OF this] show ?thesis by simp
  qed
  with len show ?thesis by blast
qed

text \<open>
  With three rows or more there is a row between the first and the last, and the call
  raises in its last column.
\<close>

lemma calc_positional_e_raises:
  assumes L: "is_lattice N spins" and N: "3 \<le> N"
  shows "calc_positional_e spins J = Inl IndexError"
proof (cases "calc_positional_e spins J")
  case (Inl e)
  then show ?thesis
    by (simp add: calc_positional_e_Inl)
next
  case (Inr E)
  have len: "int (length spins) = N"
    using L by (rule lattice_length)
  then have "1 < length spins" "nat (N - 1) < length spins"
    using N by linarith+
  with calc_positional_e_Inr [OF Inr] have
    "positional_e_at spins (int 1) (int (nat (N - 1))) = Inr (E ! 1 ! nat (N - 1))"
    by blast
  moreover have "positional_e_at spins 1 (N - 1) = Inl IndexError"
    using L N by (intro positional_e_at_last_column) simp_all
  ultimately show ?thesis
    using N by simp
qed

text \<open>
  C1. \<^verbatim>\<open>calc_positional_e(lattice, J)[i][j]\<close> is claimed to be the periodic four-neighbour
  sum at every cell. On the 3 by 3 lattice below, at the interior cell \<open>(1, 1)\<close>, the body
  of the loop yields \<open>4\<close>, twice the sum of the left and right neighbours, where the
  periodic sum is \<open>2\<close>; and the call as a whole stops at cell \<open>(1, 2)\<close>, whose row branch
  reads column \<open>3\<close>.
\<close>

theorem calc_positional_e_interior_row:
  "positional_e_at [[1, - 1, 1], [1, 1, 1], [1, 1, 1]] 1 1 = Inr 4
   \<and> neighborSum [[1, - 1, 1], [1, 1, 1], [1, 1, 1]] 1 1 = 2
   \<and> calc_positional_e [[1, - 1, 1], [1, 1, 1], [1, 1, 1]] 1 = Inl IndexError"
  by (simp add: positional_e_at_def calc_positional_e_def neighborSum_def cell_def
      read2_def getitem2_def getitem_def index_def upt_rec)

text \<open>
  C2. \<^verbatim>\<open>delta_e(lattice, i, j, J)\<close> is claimed to be \<open>2 * J * lattice[i][j]\<close> times the entry
  of \<^verbatim>\<open>calc_positional_e\<close> at the same site. On the same lattice and cell, with \<open>J = 1\<close>,
  \<^verbatim>\<open>delta_e\<close> returns \<open>4\<close>, while the loop body of \<^verbatim>\<open>calc_positional_e\<close> yields \<open>4\<close> and the
  product \<open>2 * J * lattice[1][1] * 4\<close> is \<open>8\<close>.
\<close>

theorem delta_e_differs_from_positional_e:
  "delta_e [[1, - 1, 1], [1, 1, 1], [1, 1, 1]] 1 1 1 = Inr 4
   \<and> positional_e_at [[1, - 1, 1], [1, 1, 1], [1, 1, 1]] 1 1 = Inr 4
   \<and> 2 * 1 * cell [[1, - 1, 1], [1, 1, 1], [1, 1, 1]] 1 1 * 4 = 8"
  by (simp add: delta_e_def positional_e_at_def cell_def
      read2_def getitem2_def getitem_def index_def)

section \<open>The total energy \<^verbatim>\<open>total_mag_e\<close>\<close>

lemma total_mag_e_Inl: "total_mag_e spins J = Inl e \<Longrightarrow> e = IndexError"
  by (auto simp: total_mag_e_def ebind_eq_Inl dest: calc_positional_e_Inl)

lemma total_mag_e_raises:
  "is_lattice N spins \<Longrightarrow> 3 \<le> N \<Longrightarrow> total_mag_e spins J = Inl IndexError"
  by (simp add: total_mag_e_def calc_positional_e_raises)


text \<open>On a 2 by 2 lattice every cell sees each of its two neighbours twice.\<close>

lemma total_mag_e_two:
  assumes "is_lattice 2 spins"
  shows "total_mag_e spins J = Inr (- 4 * J * sum_list (map sum_list spins))"
proof -
  from assms obtain r0 r1 where s: "spins = [r0, r1]"
    by (auto simp: is_lattice_def numeral_2_eq_2 length_Suc_conv)
  with assms obtain a b c d where r: "r0 = [a, b]" "r1 = [c, d]"
    by (auto simp: is_lattice_def numeral_2_eq_2 length_Suc_conv)
  show ?thesis
    unfolding s r
    by (simp add: total_mag_e_def calc_positional_e_def positional_e_at_def read2_def
        getitem2_def getitem_def index_def upt_rec numeral_2_eq_2 algebra_simps)
qed




section \<open>One update step\<close>

text \<open>Negating one cell keeps the lattice a lattice.\<close>

lemma negate_cell_lattice:
  assumes L: "is_lattice N spins" and a: "a < length spins" and b: "b < length (spins ! a)"
  shows "is_lattice N (spins[a := (spins ! a)[b := - (spins ! a ! b)]])"
proof -
  let ?row = "(spins ! a)[b := - (spins ! a ! b)]"
  have row: "spins ! a \<in> set spins"
    using a by simp
  have len: "int (length ?row) = N"
    using L row by (simp add: is_lattice_def)
  have v: "spins ! a ! b = 1 \<or> spins ! a ! b = - 1"
    using L row b by (auto simp: is_lattice_def)
  have cells: "x = 1 \<or> x = - 1" if "x \<in> set ?row" for x
  proof -
    from that have "x \<in> insert (- (spins ! a ! b)) (set (spins ! a))"
      using set_update_subset_insert by fast
    then show ?thesis
      using v L row by (auto simp: is_lattice_def)
  qed
  have rows: "int (length r) = N \<and> (\<forall>x\<in>set r. x = 1 \<or> x = - 1)"
    if "r \<in> set (spins[a := ?row])" for r
  proof -
    from that have "r \<in> insert ?row (set spins)"
      using set_update_subset_insert by fast
    then show ?thesis
      using len cells L by (auto simp: is_lattice_def)
  qed
  have "int (length (spins[a := ?row])) = N"
    using L by (simp add: is_lattice_def)
  with rows show ?thesis
    unfolding is_lattice_def by blast
qed

text \<open>What a step that returns has done, read off the loop body.\<close>

lemma mh_step_Inr:
  assumes "mh_step N beta J draws s (spins, E) = Inr (spins', E')" and "draws s = (i, j, u)"
  shows "\<exists>dE e. 0 < N \<and> delta_e spins i j J = Inr dE \<and> getitem E (int s - 1) = Inr e \<and>
     (if dE < 0 \<or> u < exp (- beta * real_of_int dE)
      then (\<exists>v. getitem2 spins i j = Inr v \<and> setitem2 spins i j (- v) = Inr spins')
           \<and> setitem E (int s) (e + dE) = Inr E'
      else spins' = spins \<and> setitem E (int s) e = Inr E')"
  using assms
  by (auto simp: mh_step_def randint_def ebind_eq_Inr split: if_splits)

lemma mh_step_lattice:
  assumes L: "is_lattice N spins" and st: "mh_step N beta J draws s (spins, E) = Inr (spins', E')"
  shows "is_lattice N spins'"
proof -
  obtain i j u where d: "draws s = (i, j, u)" by (cases "draws s") auto
  from mh_step_Inr [OF st d] obtain dE e where
    c: "if dE < 0 \<or> u < exp (- beta * real_of_int dE)
      then (\<exists>v. getitem2 spins i j = Inr v \<and> setitem2 spins i j (- v) = Inr spins')
           \<and> setitem E (int s) (e + dE) = Inr E'
      else spins' = spins \<and> setitem E (int s) e = Inr E'" by blast
  show ?thesis
  proof (cases "dE < 0 \<or> u < exp (- beta * real_of_int dE)")
    case True
    with c obtain v where g: "getitem2 spins i j = Inr v" and w: "setitem2 spins i j (- v) = Inr spins'"
      by auto
    from getitem2_Inr [OF g] setitem2_Inr [OF w] obtain a b where
      "a < length spins" "b < length (spins ! a)" "spins' = spins[a := (spins ! a)[b := - (spins ! a ! b)]]"
      by auto
    with L show ?thesis by (simp add: negate_cell_lattice)
  next
    case False
    with c L show ?thesis by simp
  qed
qed

lemma mh_step_series:
  assumes st: "mh_step N beta J draws s (spins, E) = Inr (spins', E')" and s: "1 \<le> s"
  shows "s < length E \<and> length E' = length E \<and> (\<forall>k. k \<noteq> s \<longrightarrow> E' ! k = E ! k)"
proof -
  obtain i j u where d: "draws s = (i, j, u)" by (cases "draws s") auto
  from mh_step_Inr [OF st d] obtain v where "setitem E (int s) v = Inr E'"
    by (auto split: if_splits)
  from setitem_Inr [OF this] s show ?thesis
    by (auto simp: index_nonneg)
qed



text \<open>On a lattice of two rows or more, a step inside the series returns.\<close>

lemma mh_step_returns:
  assumes L: "is_lattice N spins" and N: "2 \<le> N" and d: "draws s = (i, j, u)"
    and i: "0 \<le> i" "i < N" and j: "0 \<le> j" "j < N" and s: "1 \<le> s" "s < length E"
  shows "\<exists>st. mh_step N beta J draws s (spins, E) = Inr st"
proof -
  have "index (length E) (int s - 1) = Inr (s - 1)" "index (length E) (int s) = Inr s"
    using s by (auto simp: index_def)
  then show ?thesis
    using L N i j
    by (simp add: mh_step_def d randint_def delta_e_periodic getitem2_in setitem2_in
        getitem_def setitem_def)
qed

section \<open>The loop\<close>


lemma mh_loop_lattice:
  "is_lattice N spins \<Longrightarrow> mh_loop N beta J draws ss (spins, E) = Inr (spins', E')
   \<Longrightarrow> is_lattice N spins'"
proof (induction ss arbitrary: spins E)
  case Nil
  then show ?case by simp
next
  case (Cons s ss)
  from Cons.prems(2) obtain sp1 E1 where
    1: "mh_step N beta J draws s (spins, E) = Inr (sp1, E1)"
    and 2: "mh_loop N beta J draws ss (sp1, E1) = Inr (spins', E')"
    by (auto simp: ebind_eq_Inr)
  from Cons.prems(1) 1 have "is_lattice N sp1" by (rule mh_step_lattice)
  then show ?case using 2 by (rule Cons.IH)
qed


lemma mh_loop_returns:
  assumes "is_lattice N spins" and "2 \<le> N"
    and "\<forall>s\<in>set ss. 1 \<le> s \<and> s < length E
           \<and> (case draws s of (i, j, u) \<Rightarrow> 0 \<le> i \<and> i < N \<and> 0 \<le> j \<and> j < N)"
  shows "\<exists>st. mh_loop N beta J draws ss (spins, E) = Inr st"
  using assms
proof (induction ss arbitrary: spins E)
  case Nil
  show ?case by simp
next
  case (Cons s ss)
  obtain i j u where d: "draws s = (i, j, u)"
    by (cases "draws s") auto
  with Cons.prems(3) have r: "0 \<le> i" "i < N" "0 \<le> j" "j < N" and s: "1 \<le> s" "s < length E"
    by auto
  have "\<exists>st. mh_step N beta J draws s (spins, E) = Inr st"
    using Cons.prems(1,2) d r s by (rule mh_step_returns)
  then obtain sp1 E1 where 1: "mh_step N beta J draws s (spins, E) = Inr (sp1, E1)"
    by force
  have L1: "is_lattice N sp1"
    using Cons.prems(1) 1 by (rule mh_step_lattice)
  from mh_step_series [OF 1 s(1)] have "length E1 = length E"
    by simp
  with Cons.prems(3) have "\<forall>s\<in>set ss. 1 \<le> s \<and> s < length E1
           \<and> (case draws s of (i, j, u) \<Rightarrow> 0 \<le> i \<and> i < N \<and> 0 \<le> j \<and> j < N)"
    by simp
  from Cons.IH [OF L1 Cons.prems(2) this] 1 show ?case
    by simp
qed

section \<open>The run\<close>

lemma mh_init_Inr:
  assumes "mh_init N n_steps init = Inr (spins, E)"
  shows "spins = init \<and> 0 \<le> N \<and> 1 \<le> n_steps \<and> int (length E) = n_steps
         \<and> total_mag_e init 1 = Inr (E ! 0)"
  using assms
  by (auto simp: mh_init_def random_choice_def ones_def ebind_eq_Inr index_def
      split: if_splits dest!: setitem_Inr)

text \<open>A run stopped after \<open>k\<close> steps, one step further, and completed.\<close>

lemma mh_upto_0: "mh_upto 0 N n_steps beta init draws = mh_init N n_steps init"
  by (cases "mh_init N n_steps init") (simp_all add: mh_upto_def)



lemma mh_upto_lattice:
  assumes "is_lattice N init" and "mh_upto k N n_steps beta init draws = Inr (spins, E)"
  shows "is_lattice N spins"
proof -
  from assms(2) obtain sp0 E0 where
    0: "mh_init N n_steps init = Inr (sp0, E0)"
    and 1: "mh_loop N beta 1 draws [1..<Suc k] (sp0, E0) = Inr (spins, E)"
    by (auto simp: mh_upto_def ebind_eq_Inr)
  from mh_init_Inr [OF 0] assms(1) have "is_lattice N sp0"
    by simp
  then show ?thesis
    using 1 by (rule mh_loop_lattice)
qed




text \<open>
  Which runs return. On a 2 by 2 lattice every run of at least one step does. With three
  rows or more the energy of the initial lattice is never obtained: \<^verbatim>\<open>calc_positional_e\<close>
  reads column \<open>N\<close> (compiled by numba the read is unchecked; under NumPy's indexing,
  which the model follows, it raises).
\<close>

lemma run_returns:
  assumes L: "is_lattice 2 init" and n: "1 \<le> n_steps"
    and d: "\<forall>s. case draws s of (i, j, u) \<Rightarrow> 0 \<le> i \<and> i < 2 \<and> 0 \<le> j \<and> j < 2"
  shows "\<exists>spins E_series. metropolis_hastings 2 n_steps beta init draws = Inr (spins, E_series)"
proof -
  let ?E = "(replicate (nat n_steps) 1)[0 := - 4 * 1 * sum_list (map sum_list init)]"
  have init: "mh_init 2 n_steps init = Inr (init, ?E)"
    using n by (simp add: mh_init_def random_choice_def ones_def total_mag_e_two [OF L]
        setitem_def index_def)
  have "\<forall>s\<in>set [1..<nat n_steps]. 1 \<le> s \<and> s < length ?E
           \<and> (case draws s of (i, j, u) \<Rightarrow> 0 \<le> i \<and> i < 2 \<and> 0 \<le> j \<and> j < 2)"
    using d by simp
  with L have "\<exists>st. mh_loop 2 beta 1 draws [1..<nat n_steps] (init, ?E) = Inr st"
    by (intro mh_loop_returns) simp_all
  then obtain st where "mh_loop 2 beta 1 draws [1..<nat n_steps] (init, ?E) = Inr st"
    by blast
  with init show ?thesis
    by (cases st) (simp add: metropolis_hastings_def)
qed

lemma run_raises:
  assumes "is_lattice N init" and "3 \<le> N" and "0 \<le> n_steps"
  shows "metropolis_hastings N n_steps beta init draws = Inl IndexError"
  using assms
  by (simp add: metropolis_hastings_def mh_init_def random_choice_def ones_def total_mag_e_raises)

text \<open>The definitions that evaluate a run on a concrete input.\<close>

lemmas run_defs = metropolis_hastings_def mh_upto_def mh_init_def mh_step_def random_choice_def
  ones_def randint_def total_mag_e_def calc_positional_e_def positional_e_at_def delta_e_def
  read2_def getitem2_def setitem2_def getitem_def setitem_def index_def always_def upt_rec
  numeral_2_eq_2






text \<open>
  C6. When the initial lattice is an \<open>N \<times> N\<close> grid of cells \<open>\<plusminus>1\<close>, so is the lattice that
  \<^verbatim>\<open>metropolis_hastings\<close> returns, and so is the lattice after any number of update steps.
  The third part does not depend on the energy that starts the series: from the initial
  lattice and any series, the loop over any steps leaves such a grid.
\<close>

theorem lattice_invariant:
  assumes "is_lattice N init"
  shows "(\<forall>spins E_series.
            metropolis_hastings N n_steps beta init draws = Inr (spins, E_series) \<longrightarrow>
            is_lattice N spins)
       \<and> (\<forall>k spins E_series.
            mh_upto k N n_steps beta init draws = Inr (spins, E_series) \<longrightarrow> is_lattice N spins)
       \<and> (\<forall>ss E0 spins E_series.
            mh_loop N beta 1 draws ss (init, E0) = Inr (spins, E_series) \<longrightarrow> is_lattice N spins)"
proof (intro conjI allI impI)
  fix spins E_series
  assume "metropolis_hastings N n_steps beta init draws = Inr (spins, E_series)"
  then obtain sp0 E0 where
    0: "mh_init N n_steps init = Inr (sp0, E0)"
    and 1: "mh_loop N beta 1 draws [1..<nat n_steps] (sp0, E0) = Inr (spins, E_series)"
    by (auto simp: metropolis_hastings_def ebind_eq_Inr)
  from mh_init_Inr [OF 0] assms have "is_lattice N sp0"
    by simp
  then show "is_lattice N spins"
    using 1 by (rule mh_loop_lattice)
next
  fix k spins E_series
  assume "mh_upto k N n_steps beta init draws = Inr (spins, E_series)"
  with assms show "is_lattice N spins"
    by (rule mh_upto_lattice)
next
  fix ss E0 spins E_series
  assume "mh_loop N beta 1 draws ss (init, E0) = Inr (spins, E_series)"
  with assms show "is_lattice N spins"
    by (rule mh_loop_lattice)
qed

theorem lattice_invariant_witness:
  "is_lattice 2 [[1, - 1], [1, 1]]
   \<and> metropolis_hastings 2 2 0 [[1, - 1], [1, 1]] (always (0, 0, 1 / 2))
     = Inr ([[- 1, - 1], [1, 1]], [- 8, - 8])
   \<and> mh_upto 0 2 2 0 [[1, - 1], [1, 1]] (always (0, 0, 1 / 2))
     = Inr ([[1, - 1], [1, 1]], [- 8, 1])
   \<and> mh_loop 2 0 1 (always (0, 0, 1 / 2)) [1] ([[1, - 1], [1, 1]], [5, 1])
     = Inr ([[- 1, - 1], [1, 1]], [5, 5])
   \<and> is_lattice 2 [[- 1, - 1], [1, 1]]"
proof -
  have L: "is_lattice 2 [[1, - 1], [1, 1]]"
    by (simp add: is_lattice_def)
  have run: "metropolis_hastings 2 2 0 [[1, - 1], [1, 1]] (always (0, 0, 1 / 2))
     = Inr ([[- 1, - 1], [1, 1]], [- 8, - 8])"
    by (simp add: run_defs)
  have upto: "mh_upto 0 2 2 0 [[1, - 1], [1, 1]] (always (0, 0, 1 / 2))
     = Inr ([[1, - 1], [1, 1]], [- 8, 1])"
    by (simp add: run_defs)
  have loop: "mh_loop 2 0 1 (always (0, 0, 1 / 2)) [1] ([[1, - 1], [1, 1]], [5, 1])
     = Inr ([[- 1, - 1], [1, 1]], [5, 5])"
    by (simp add: run_defs)
  from lattice_invariant [OF L, of 2 0 "always (0, 0, 1 / 2)"] run
  have "is_lattice 2 [[- 1, - 1], [1, 1]]"
    by blast
  with L run upto loop show ?thesis
    by simp
qed

section \<open>Arguments outside the domain\<close>

lemma mh_zero_steps:
  assumes "0 \<le> N"
  shows "metropolis_hastings N 0 beta init draws = Inl IndexError"
proof (cases "total_mag_e init 1")
  case (Inl e)
  then have "e = IndexError" by (rule total_mag_e_Inl)
  with Inl assms show ?thesis
    by (simp add: metropolis_hastings_def mh_init_def random_choice_def ones_def)
next
  case (Inr E0)
  with assms show ?thesis
    by (simp add: metropolis_hastings_def mh_init_def random_choice_def ones_def setitem_def index_def)
qed

lemma mh_empty_lattice:
  "mh_init 0 n_steps [] = (if n_steps < 0 then Inl ValueError
     else if n_steps = 0 then Inl IndexError else Inr ([], (replicate (nat n_steps) 1)[0 := 0]))"
  by (simp add: mh_init_def random_choice_def ones_def total_mag_e_def calc_positional_e_def
      setitem_def index_def)

text \<open>
  C7, as the code has it. \<^verbatim>\<open>metropolis_hastings\<close> checks no argument itself. A negative
  \<open>N\<close> or a negative \<open>n_steps\<close> is refused by the array constructors with \<^verbatim>\<open>ValueError\<close>;
  \<open>n_steps = 0\<close> fails with \<^verbatim>\<open>IndexError\<close>, at \<^verbatim>\<open>E_series[0] = ...\<close> or in the energy
  computation before it; \<open>N = 0\<close> with \<open>n_steps = 1\<close> returns the empty lattice and the
  series \<open>[0]\<close>; \<open>N = 0\<close> with more steps fails with \<^verbatim>\<open>ValueError\<close> at the first
  \<^verbatim>\<open>randint(0)\<close>.
\<close>

theorem no_argument_check:
  "(N < 0 \<longrightarrow> metropolis_hastings N n_steps beta init draws = Inl ValueError)
 \<and> (0 \<le> N \<and> n_steps < 0 \<longrightarrow> metropolis_hastings N n_steps beta init draws = Inl ValueError)
 \<and> (0 \<le> N \<and> n_steps = 0 \<longrightarrow> metropolis_hastings N n_steps beta init draws = Inl IndexError)
 \<and> (N = 0 \<and> is_lattice N init \<and> n_steps = 1 \<longrightarrow>
      metropolis_hastings N n_steps beta init draws = Inr ([], [0]))
 \<and> (N = 0 \<and> is_lattice N init \<and> 2 \<le> n_steps \<longrightarrow>
      metropolis_hastings N n_steps beta init draws = Inl ValueError)"
proof (intro conjI impI)
  assume "N < 0"
  then show "metropolis_hastings N n_steps beta init draws = Inl ValueError"
    by (simp add: metropolis_hastings_def mh_init_def random_choice_def)
next
  assume "0 \<le> N \<and> n_steps < 0"
  then show "metropolis_hastings N n_steps beta init draws = Inl ValueError"
    by (simp add: metropolis_hastings_def mh_init_def random_choice_def ones_def)
next
  assume "0 \<le> N \<and> n_steps = 0"
  then show "metropolis_hastings N n_steps beta init draws = Inl IndexError"
    by (simp add: mh_zero_steps)
next
  assume "N = 0 \<and> is_lattice N init \<and> n_steps = 1"
  then have "N = 0" "init = []" "n_steps = 1"
    by (auto simp: is_lattice_def)
  then show "metropolis_hastings N n_steps beta init draws = Inr ([], [0])"
    by (simp add: metropolis_hastings_def mh_empty_lattice)
next
  assume "N = 0 \<and> is_lattice N init \<and> 2 \<le> n_steps"
  then have *: "N = 0" "init = []" "2 \<le> n_steps"
    by (auto simp: is_lattice_def)
  then have "1 < nat n_steps"
    by linarith
  then have "[1..<nat n_steps] = 1 # [2..<nat n_steps]"
    using upt_conv_Cons [of 1 "nat n_steps"] by (simp add: numeral_2_eq_2)
  moreover have "mh_step 0 beta 1 draws 1 st = Inl ValueError" for st
    by (cases "draws 1"; cases st) (simp add: mh_step_def randint_def)
  ultimately show "metropolis_hastings N n_steps beta init draws = Inl ValueError"
    using * by (simp add: metropolis_hastings_def mh_empty_lattice)
qed

theorem no_argument_check_witness:
  "metropolis_hastings (- 1) 5 0 [] (always (0, 0, 0)) = Inl ValueError
   \<and> metropolis_hastings 2 (- 1) 0 [[1, - 1], [1, 1]] (always (0, 0, 0)) = Inl ValueError
   \<and> metropolis_hastings 2 0 0 [[1, - 1], [1, 1]] (always (0, 0, 0)) = Inl IndexError
   \<and> is_lattice 0 []
   \<and> metropolis_hastings 0 1 0 [] (always (0, 0, 0)) = Inr ([], [0])
   \<and> metropolis_hastings 0 2 0 [] (always (0, 0, 0)) = Inl ValueError"
proof -
  have L: "is_lattice 0 []"
    by (simp add: is_lattice_def)
  from no_argument_check [of "- 1" 5 0 "[]" "always (0, 0, 0)"]
    no_argument_check [of 2 "- 1" 0 "[[1, - 1], [1, 1]]" "always (0, 0, 0)"]
    no_argument_check [of 2 0 0 "[[1, - 1], [1, 1]]" "always (0, 0, 0)"]
    no_argument_check [of 0 1 0 "[]" "always (0, 0, 0)"]
    no_argument_check [of 0 2 0 "[]" "always (0, 0, 0)"]
    L show ?thesis
    by simp
qed

text \<open>With \<open>N = 0\<close> and one step the call does not fail.\<close>

theorem no_argument_check_counterexample:
  "metropolis_hastings 0 1 0 [] (always (0, 0, 0)) = Inr ([], [0])"
  by (simp add: run_defs)

section \<open>The Cython version against the Python version\<close>

text \<open>
  The Cython \<^verbatim>\<open>calc_positional_e\<close> has the branches of the Python loop body, the third row
  branch included: whatever it returns, the Python loop body returns at the same cell.
\<close>

lemma raw_index_Inr: "raw_index xs k = Inr a \<Longrightarrow> index (length xs) k = Inr a"
  by (auto simp: raw_index_def index_def split: if_splits)

lemma peek2_getitem2: "peek2 spins i j = Inr v \<Longrightarrow> getitem2 spins i j = Inr v"
  by (auto simp: peek2_def getitem2_def getitem_def ebind_eq_Inr dest!: raw_index_Inr)

lemma peek22_read2: "peek22 spins a b c d = Inr p \<Longrightarrow> read2 spins a b c d = Inr p"
  by (auto simp: peek22_def read2_def ebind_eq_Inr dest!: peek2_getitem2)

lemma calc_positional_e_cy_python:
  assumes "calc_positional_e_cy spins i j J = Inr e"
  shows "positional_e_at spins i j = Inr e"
  using assms unfolding calc_positional_e_cy_def positional_e_at_def Let_def
  by (auto simp: ebind_eq_Inr split: if_splits dest!: peek22_read2)

text \<open>Two bounds on the acceptance probability, for the step evaluated below.\<close>

lemma exp_minus_4: "(1 / 100 :: real) < exp (- 4)"
proof -
  have "exp (4 :: real) = exp 1 ^ 4"
    using exp_of_nat_mult [of 4 "1 :: real"] by simp
  also have "\<dots> \<le> 3 ^ 4"
    by (rule power_mono) (simp_all add: exp_le)
  finally have "exp (4 :: real) < 100"
    by simp
  then have "1 / 100 < 1 / exp (4 :: real)"
    by (simp add: field_simps)
  then show ?thesis
    by (simp add: exp_minus inverse_eq_divide)
qed

lemma exp_minus_8: "exp (- 8) < (1 / 100 :: real)"
proof -
  have "(2 :: real) \<le> exp 1"
    using exp_ge_add_one_self [of "1 :: real"] by simp
  then have "(2 :: real) ^ 8 \<le> exp 1 ^ 8"
    by (rule power_mono) simp
  also have "\<dots> = exp (8 :: real)"
    using exp_of_nat_mult [of 8 "1 :: real"] by simp
  finally have "100 < exp (8 :: real)"
    by simp
  then have "1 / exp (8 :: real) < 1 / 100"
    by (simp add: field_simps)
  then show ?thesis
    by (simp add: exp_minus inverse_eq_divide)
qed

text \<open>
  C10. From the same lattice and the same draws the two versions are claimed to return
  the same lattice and the same energy series. One update step from the same state of a
  3 by 3 lattice, at the interior site \<open>(1, 1)\<close>, with \<open>beta = 1\<close> and the uniform number
  \<open>1/100\<close>: the Python \<^verbatim>\<open>delta_e\<close> is \<open>4\<close> and the flip is accepted; the Cython \<^verbatim>\<open>delta_e\<close>,
  which goes through the Cython \<^verbatim>\<open>calc_positional_e\<close>, is \<open>8\<close> and the flip is rejected.
  The two steps leave different lattices and different series.
\<close>

theorem python_cython_step:
  "delta_e [[1, - 1, 1], [1, 1, 1], [1, 1, 1]] 1 1 1 = Inr 4
   \<and> delta_e_cy [[1, - 1, 1], [1, 1, 1], [1, 1, 1]] 1 1 1 = Inr 8
   \<and> mh_step 3 1 1 (always (1, 1, 1 / 100)) 1 ([[1, - 1, 1], [1, 1, 1], [1, 1, 1]], [0, 1])
       = Inr ([[1, - 1, 1], [1, - 1, 1], [1, 1, 1]], [0, 4])
   \<and> mh_step2 3 1 1 (always (1 / 2, 1 / 2, 1 / 100)) 1 ([[1, - 1, 1], [1, 1, 1], [1, 1, 1]], [0, 1])
       = Inr ([[1, - 1, 1], [1, 1, 1], [1, 1, 1]], [0, 0])"
proof -
  have not8: "\<not> (1 / 100 :: real) < exp (- 8)"
    using exp_minus_8 by simp
  show ?thesis
    using exp_minus_4 not8
    by (simp add: delta_e_def delta_e_cy_def calc_positional_e_cy_def mh_step_def mh_step2_def
        randint_def c_int_def always_def read2_def getitem2_def setitem2_def getitem_def
        setitem_def index_def peek22_def peek2_def poke2_def peek_def poke_def raw_index_def
        )
qed

section \<open>The average magnetization\<close>

text \<open>Powers of two.\<close>

lemma pow2_powi: "pow2 e = 2 powi e"
  by (simp add: pow2_def power_int_def inverse_eq_divide power_one_over)

lemma pow2_pos [simp]: "0 < pow2 e"
  by (simp add: pow2_def)

lemma pow2_nonzero [simp]: "pow2 e \<noteq> 0"
  by (simp add: pow2_def)

lemma pow2_abs [simp]: "\<bar>pow2 e\<bar> = pow2 e"
  by (simp add: abs_of_pos)

lemma pow2_sgn [simp]: "sgn (pow2 e) = 1"
  by (simp add: sgn_if)

lemma pow2_add: "pow2 (a + b) = pow2 a * pow2 b"
  by (simp add: pow2_powi power_int_add)

lemma pow2_less_iff: "pow2 a < pow2 b \<longleftrightarrow> a < b"
proof
  assume "a < b"
  then show "pow2 a < pow2 b"
    by (simp add: pow2_powi power_int_strict_increasing)
next
  assume lt: "pow2 a < pow2 b"
  show "a < b"
  proof (rule ccontr)
    assume "\<not> a < b"
    then have "pow2 b \<le> pow2 a"
      by (simp add: pow2_powi power_int_increasing)
    with lt show False
      by simp
  qed
qed

lemma pow2_nat: "pow2 (int k) = 2 ^ k"
  by (simp add: pow2_def)

lemma pow2_neg_nat: "pow2 (- int k) = 1 / 2 ^ k"
  by (cases k) (simp_all add: pow2_def del: of_nat_Suc)

text \<open>\<open>ilog2\<close> is the binary logarithm rounded down.\<close>

lemma ilog2_bounds:
  assumes "0 < x"
  shows "pow2 (ilog2 x) \<le> x \<and> x < pow2 (ilog2 x + 1)"
proof (cases "1 \<le> x")
  case True
  let ?f = "\<lfloor>x\<rfloor>"
  have f: "0 < ?f" using True by simp
  from bitlen_bounds [OF f] have lo: "2 ^ nat (bitlen ?f - 1) \<le> ?f" and hi: "?f < 2 ^ nat (bitlen ?f)"
    by simp_all
  have b: "1 \<le> bitlen ?f" using f by (simp add: bitlen_alt_def)
  have "(of_int (2 ^ nat (bitlen ?f - 1)) :: rat) \<le> of_int ?f"
    using lo by (simp only: of_int_le_iff)
  also have "\<dots> \<le> x" by simp
  finally have 1: "pow2 (bitlen ?f - 1) \<le> x"
    using b by (simp add: pow2_def)
  have "?f + 1 \<le> 2 ^ nat (bitlen ?f)" using hi by simp
  then have "(of_int (?f + 1) :: rat) \<le> of_int (2 ^ nat (bitlen ?f))"
    by (simp only: of_int_le_iff)
  moreover have "x < of_int (?f + 1)" by linarith
  ultimately have 2: "x < pow2 (bitlen ?f)"
    using b by (simp add: pow2_def)
  from 1 2 True show ?thesis by (simp add: ilog2_def)
next
  case False
  let ?c = "\<lceil>1 / x\<rceil>"
  have y: "1 < 1 / x" using assms False by simp
  then have c: "0 < ?c - 1" by linarith
  from bitlen_bounds [OF c] have lo: "2 ^ nat (bitlen (?c - 1) - 1) \<le> ?c - 1"
    and hi: "?c - 1 < 2 ^ nat (bitlen (?c - 1))"
    by simp_all
  have b: "1 \<le> bitlen (?c - 1)" using c by (simp add: bitlen_alt_def)
  let ?b = "bitlen (?c - 1)"
  have "?c \<le> 2 ^ nat ?b" using hi by simp
  then have "(of_int ?c :: rat) \<le> of_int (2 ^ nat ?b)" by (simp only: of_int_le_iff)
  moreover have "1 / x \<le> of_int ?c" by simp
  ultimately have "1 / x \<le> of_int (2 ^ nat ?b)" by (rule order_trans [rotated])
  then have "1 / x \<le> 2 ^ nat ?b" by simp
  then have "1 \<le> 2 ^ nat ?b * x" using assms by (simp add: field_simps)
  then have 1: "pow2 (- ?b) \<le> x" using b by (simp add: pow2_def field_simps)
  have "(of_int (2 ^ nat (?b - 1)) :: rat) \<le> of_int (?c - 1)" using lo by (simp only: of_int_le_iff)
  moreover have "of_int (?c - 1) < 1 / x" by linarith
  ultimately have "of_int (2 ^ nat (?b - 1)) < 1 / x" by (rule order_le_less_trans)
  then have "2 ^ nat (?b - 1) < 1 / x" by simp
  then have lt: "2 ^ nat (?b - 1) * x < 1" using assms by (simp add: field_simps)
  have 2: "x < pow2 (- ?b + 1)"
  proof (cases "?b = 1")
    case True
    with lt show ?thesis by (simp add: pow2_def)
  next
    case False
    with b have "- ?b + 1 < 0" "nat (- (- ?b + 1)) = nat (?b - 1)" by simp_all
    with lt show ?thesis by (simp add: pow2_def field_simps)
  qed
  from 1 2 False show ?thesis by (simp add: ilog2_def)
qed

lemma sgn_of_int: "sgn (of_int m :: rat) = of_int (sgn m)"
  by (simp add: sgn_if)

lemma round_half_even_of_int: "round_half_even (of_int m) = m"
  by (simp add: round_half_even_def)

text \<open>
  A value \<open>m * 2\<^sup>n\<close> with \<open>m\<close> below \<open>2\<^sup>5\<^sup>3\<close> in magnitude and \<open>n \<ge> -1074\<close> is a double: rounding
  leaves it as it is.
\<close>

lemma round_double_exact:
  assumes m: "\<bar>m\<bar> < 2 ^ 53" and n: "- 1074 \<le> n"
  shows "round_double (of_int m * pow2 n) = of_int m * pow2 n"
proof (cases "m = 0")
  case True
  then show ?thesis by (simp add: round_double_def)
next
  case False
  let ?x = "of_int m * pow2 n :: rat"
  have x0: "?x \<noteq> 0" using False by simp
  have ax: "\<bar>?x\<bar> = of_int \<bar>m\<bar> * pow2 n"
    by (simp add: abs_mult)
  have pos: "0 < \<bar>?x\<bar>" using x0 by simp
  define t where "t = ilog2 \<bar>?x\<bar>"
  define e where "e = max (t - 52) (- 1074)"
  have "(of_int \<bar>m\<bar> :: rat) < of_int (2 ^ 53)"
    using m by (simp only: of_int_less_iff)
  then have "(of_int \<bar>m\<bar> :: rat) < pow2 53"
    by (simp add: pow2_def)
  then have "\<bar>?x\<bar> < pow2 53 * pow2 n"
    unfolding ax by (simp add: mult_strict_right_mono)
  then have "\<bar>?x\<bar> < pow2 (n + 53)"
    by (simp add: pow2_add mult.commute)
  moreover have "pow2 t \<le> \<bar>?x\<bar>"
    unfolding t_def using ilog2_bounds [OF pos] by blast
  ultimately have "pow2 t < pow2 (n + 53)"
    by (rule order_le_less_trans [rotated])
  then have "t < n + 53"
    by (simp only: pow2_less_iff)
  with n have e: "e \<le> n"
    by (simp add: e_def)
  define d where "d = nat (n - e)"
  have split: "pow2 n = pow2 (int d) * pow2 e"
    using e by (simp add: d_def pow2_add [symmetric])
  have "\<bar>?x\<bar> / pow2 e = of_int \<bar>m\<bar> * pow2 n / pow2 e"
    by (simp only: ax)
  also have "\<dots> = of_int \<bar>m\<bar> * (pow2 (int d) * pow2 e) / pow2 e"
    by (simp only: split)
  also have "\<dots> = of_int \<bar>m\<bar> * pow2 (int d)"
    by simp
  also have "\<dots> = of_int (\<bar>m\<bar> * 2 ^ d)"
    by (simp add: pow2_nat)
  finally have "round_half_even (\<bar>?x\<bar> / pow2 e) = \<bar>m\<bar> * 2 ^ d"
    by (simp only: round_half_even_of_int)
  then have "round_double ?x = sgn ?x * of_int (\<bar>m\<bar> * 2 ^ d) * pow2 e"
    using x0 unfolding round_double_def Let_def t_def [symmetric] e_def [symmetric]
    by simp
  also have "sgn ?x = of_int (sgn m)"
    by (simp add: sgn_mult sgn_of_int)
  also have "of_int (sgn m) * of_int (\<bar>m\<bar> * 2 ^ d) * pow2 e = of_int (sgn m * \<bar>m\<bar>) * (pow2 (int d) * pow2 e)"
    by (simp add: pow2_nat)
  also have "\<dots> = ?x"
    by (simp only: split [symmetric] mult_sgn_abs)
  finally show ?thesis .
qed

text \<open>The sum of all cells of a lattice.\<close>

lemma sum_list_abs_bound:
  "\<forall>x\<in>set xs. \<bar>f x\<bar> \<le> (c :: int) \<Longrightarrow> \<bar>sum_list (map f xs)\<bar> \<le> c * int (length xs)"
proof (induction xs)
  case Nil
  show ?case by simp
next
  case (Cons x xs)
  then have "\<bar>f x\<bar> \<le> c" "\<bar>sum_list (map f xs)\<bar> \<le> c * int (length xs)"
    by simp_all
  then show ?case
    by (simp add: algebra_simps)
qed

lemma sum_list_const:
  "\<forall>x\<in>set xs. f x = (c :: int) \<Longrightarrow> sum_list (map f xs) = c * int (length xs)"
  by (induction xs) (simp_all add: algebra_simps)

lemma lattice_sum_bound:
  assumes "is_lattice N spins"
  shows "\<bar>sum_list (map sum_list spins)\<bar> \<le> N * N"
proof -
  have "\<bar>sum_list row\<bar> \<le> N" if "row \<in> set spins" for row
  proof -
    from assms that have cells: "\<forall>x\<in>set row. x = 1 \<or> x = - 1" and len: "int (length row) = N"
      by (auto simp: is_lattice_def)
    from cells have "\<forall>x\<in>set row. \<bar>id x\<bar> \<le> 1"
      by auto
    from sum_list_abs_bound [OF this] len show ?thesis
      by simp
  qed
  then have "\<forall>row\<in>set spins. \<bar>sum_list row\<bar> \<le> N"
    by blast
  from sum_list_abs_bound [OF this] assms show ?thesis
    by (simp add: is_lattice_def)
qed

lemma lattice_sum_uniform:
  assumes "is_lattice N spins" and "\<forall>row\<in>set spins. \<forall>x\<in>set row. x = c"
  shows "sum_list (map sum_list spins) = c * N * N"
proof -
  have "sum_list row = c * N" if "row \<in> set spins" for row
  proof -
    from assms that have "\<forall>x\<in>set row. id x = c" and len: "int (length row) = N"
      by (auto simp: is_lattice_def)
    from sum_list_const [OF this(1)] len show ?thesis
      by simp
  qed
  then have "\<forall>row\<in>set spins. sum_list row = c * N"
    by blast
  from sum_list_const [OF this] assms(1) show ?thesis
    by (simp add: is_lattice_def)
qed

lemma average_magnetization_dyadic:
  assumes L: "is_lattice N spins" and N: "N = 2 ^ k" and k: "k \<le> 26"
  shows "average_magnetization spins N
         = Inr (of_int (sum_list (map sum_list spins)) / of_int (N ^ 2))"
proof -
  let ?S = "sum_list (map sum_list spins)"
  have N2: "N ^ 2 = 2 ^ (2 * k)"
    by (simp add: N power_mult [symmetric] mult.commute)
  have inv: "1 / rat_of_int (N ^ 2) = of_int 1 * pow2 (- int (2 * k))"
    by (simp only: N2 pow2_neg_nat) simp
  have "(2 :: int) ^ (2 * k) \<le> 2 ^ 52"
    using k by (intro power_increasing) simp_all
  with lattice_sum_bound [OF L] have S: "\<bar>?S\<bar> < 2 ^ 53"
    by (simp add: N2 power2_eq_square [symmetric])
  have r1: "round_double (1 / rat_of_int (N ^ 2)) = pow2 (- int (2 * k))"
    unfolding inv using k by (subst round_double_exact) simp_all
  have r2: "round_double (of_int ?S) = of_int ?S"
    using round_double_exact [of ?S 0] S by (simp add: pow2_def)
  have r3: "round_double (pow2 (- int (2 * k)) * of_int ?S) = of_int ?S * pow2 (- int (2 * k))"
    using round_double_exact [of ?S "- int (2 * k)"] S k by (simp add: mult.commute)
  have "N ^ 2 \<noteq> 0"
    by (simp add: N)
  then have "average_magnetization spins N
      = Inr (round_double (round_double (1 / rat_of_int (N ^ 2)) * round_double (of_int ?S)))"
    unfolding average_magnetization_def int_true_div_def
    by (simp only: if_False ebind_Inr of_int_1)
  also have "\<dots> = Inr (of_int ?S * pow2 (- int (2 * k)))"
    by (simp only: r1 r2 r3)
  also have "of_int ?S * pow2 (- int (2 * k)) = of_int ?S / rat_of_int (N ^ 2)"
    by (simp only: N2 pow2_neg_nat) simp
  finally show ?thesis .
qed

text \<open>Without rounding: the side is a power of two.\<close>

lemma average_magnetization_exact:
  assumes L: "is_lattice N spins" and N: "N = 2 ^ k" and k: "k \<le> 26"
  shows "average_magnetization spins N
           = Inr (of_int (sum_list (map sum_list spins)) / of_int (N ^ 2))
       \<and> ((\<forall>row\<in>set spins. \<forall>x\<in>set row. x = 1) \<longrightarrow> average_magnetization spins N = Inr 1)
       \<and> ((\<forall>row\<in>set spins. \<forall>x\<in>set row. x = - 1) \<longrightarrow>
            average_magnetization spins N = Inr (- 1))"
proof -
  have N0: "N \<noteq> 0"
    using N by simp
  have avg: "average_magnetization spins N
           = Inr (of_int (sum_list (map sum_list spins)) / of_int (N ^ 2))"
    using L N k by (rule average_magnetization_dyadic)
  have "average_magnetization spins N = Inr (of_int c)"
    if "\<forall>row\<in>set spins. \<forall>x\<in>set row. x = c" for c
    using lattice_sum_uniform [OF L that] N0 by (simp add: avg power2_eq_square)
  from this [of 1] this [of "- 1"] avg show ?thesis
    by simp
qed

text \<open>
  With rounding: a value of normal magnitude is rounded with a relative error of at most
  \<open>2\<^sup>-\<^sup>5\<^sup>3\<close>, and \<^verbatim>\<open>average_magnetization\<close> rounds twice.
\<close>

lemma round_half_even_error: "\<bar>of_int (round_half_even y) - y\<bar> \<le> 1 / 2"
proof -
  define r where "r = y - of_int \<lfloor>y\<rfloor>"
  have r: "0 \<le> r" "r < 1"
    unfolding r_def by linarith+
  have d: "of_int \<lfloor>y\<rfloor> - y = - r" "of_int (\<lfloor>y\<rfloor> + 1) - y = 1 - r"
    by (simp_all add: r_def)
  have "round_half_even y = \<lfloor>y\<rfloor> \<and> r \<le> 1 / 2
      \<or> round_half_even y = \<lfloor>y\<rfloor> + 1 \<and> 1 / 2 \<le> r"
    unfolding round_half_even_def Let_def r_def [symmetric] by auto
  then show ?thesis
  proof (elim disjE conjE)
    assume "round_half_even y = \<lfloor>y\<rfloor>" "r \<le> 1 / 2"
    with r d(1) show ?thesis by simp
  next
    assume "round_half_even y = \<lfloor>y\<rfloor> + 1" "1 / 2 \<le> r"
    with r d(2) show ?thesis by (simp only: abs_if) simp
  qed
qed

lemma round_double_error:
  assumes x: "pow2 (- 1022) \<le> \<bar>x\<bar>"
  shows "\<bar>round_double x - x\<bar> \<le> \<bar>x\<bar> / 2 ^ 53"
proof -
  have pos: "0 < \<bar>x\<bar>"
    using x pow2_pos [of "- 1022"] by linarith
  then have x0: "x \<noteq> 0"
    by simp
  define t where "t = ilog2 \<bar>x\<bar>"
  define e where "e = t - 52"
  define y where "y = \<bar>x\<bar> / pow2 e"
  from ilog2_bounds [OF pos] have lo: "pow2 t \<le> \<bar>x\<bar>" and hi: "\<bar>x\<bar> < pow2 (t + 1)"
    by (simp_all add: t_def)
  from x hi have "pow2 (- 1022) < pow2 (t + 1)"
    by (rule order_le_less_trans)
  then have "- 1022 < t + 1"
    by (simp only: pow2_less_iff)
  then have max: "max (t - 52) (- 1074) = e"
    by (simp add: e_def)
  have rd: "round_double x = sgn x * of_int (round_half_even y) * pow2 e"
    using x0 unfolding round_double_def Let_def t_def [symmetric] max y_def by simp
  have "x = sgn x * \<bar>x\<bar>"
    by (simp add: mult_sgn_abs)
  also have "\<bar>x\<bar> = y * pow2 e"
    by (simp add: y_def)
  finally have xe: "x = sgn x * y * pow2 e"
    by (simp add: mult.assoc)
  have "round_double x - x = sgn x * (of_int (round_half_even y) - y) * pow2 e"
    by (subst (2) xe) (simp add: rd algebra_simps)
  then have "\<bar>round_double x - x\<bar> = \<bar>of_int (round_half_even y) - y\<bar> * pow2 e"
    using x0 by (simp add: abs_mult abs_sgn_eq)
  also have "\<dots> \<le> 1 / 2 * pow2 e"
    by (intro mult_right_mono round_half_even_error) (simp add: less_imp_le)
  also have "1 / 2 * pow2 e = pow2 t / 2 ^ 53"
  proof -
    have "pow2 t = pow2 (e + 52)"
      by (simp add: e_def)
    also have "\<dots> = pow2 e * pow2 52"
      by (simp only: pow2_add)
    also have "pow2 52 = 2 ^ 52"
      by (simp add: pow2_def)
    finally show ?thesis
      by simp
  qed
  also have "\<dots> \<le> \<bar>x\<bar> / 2 ^ 53"
    using lo by (simp add: divide_right_mono)
  finally show ?thesis .
qed

lemma average_magnetization_error:
  assumes L: "is_lattice N spins" and N: "1 \<le> N" "N \<le> 2 ^ 26"
  shows "\<exists>m. average_magnetization spins N = Inr m
           \<and> \<bar>m - of_int (sum_list (map sum_list spins)) / of_int (N ^ 2)\<bar>
               \<le> \<bar>of_int (sum_list (map sum_list spins)) / of_int (N ^ 2)\<bar> / 2 ^ 51"
proof -
  define S where "S = sum_list (map sum_list spins)"
  define q :: rat where "q = 1 / of_int (N ^ 2)"
  define r where "r = round_double q"
  define p where "p = r * of_int S"
  define m where "m = round_double p"
  define mean where "mean = of_int S / rat_of_int (N ^ 2)"
  define a where "a = \<bar>mean\<bar>"
  define eps :: rat where "eps = 1 / 2 ^ 53"
  have M1: "1 \<le> N ^ 2"
    using N(1) by (rule one_le_power)
  have "N ^ 2 \<le> (2 ^ 26) ^ 2"
    using N by (intro power_mono) simp_all
  then have M2: "N ^ 2 \<le> 2 ^ 52"
    by simp
  have "rat_of_int (N ^ 2) \<le> rat_of_int (2 ^ 52)" "rat_of_int 1 \<le> rat_of_int (N ^ 2)"
    using M1 M2 by (simp_all only: of_int_le_iff)
  then have Mq: "rat_of_int (N ^ 2) \<le> 2 ^ 52" "1 \<le> rat_of_int (N ^ 2)"
    by simp_all
  define Mr where "Mr = rat_of_int (N ^ 2)"
  have Mr: "Mr \<le> 2 ^ 52" "1 \<le> Mr"
    using Mq by (simp_all only: Mr_def)
  have qM: "q = 1 / Mr"
    by (simp only: q_def Mr_def)
  have qpos: "0 < q"
    using Mr unfolding qM by simp
  have qlo: "1 / 2 ^ 52 \<le> q"
    using Mr unfolding qM by (intro divide_left_mono) simp_all
  have qhi: "q \<le> 1"
    using Mr unfolding qM by simp
  have mean: "mean = q * of_int S"
    by (simp add: mean_def q_def)
  have "pow2 (- 1022) \<le> 1 / 2 ^ 52"
    by (simp add: pow2_def field_simps)
  with qlo qpos have "pow2 (- 1022) \<le> \<bar>q\<bar>"
    by simp
  from round_double_error [OF this] qpos have rq: "\<bar>r - q\<bar> \<le> q * eps"
    by (simp add: r_def eps_def)
  have "\<bar>S\<bar> \<le> N * N"
    unfolding S_def using L by (rule lattice_sum_bound)
  with M2 have Sb: "\<bar>S\<bar> < 2 ^ 53"
    by (simp add: power2_eq_square)
  have rS: "round_double (of_int S) = of_int S"
    using round_double_exact [of S 0] Sb by (simp add: pow2_def)
  have "N ^ 2 \<noteq> 0"
    using M1 by linarith
  then have "average_magnetization spins N
      = Inr (round_double (round_double (1 / rat_of_int (N ^ 2)) * round_double (of_int S)))"
    unfolding average_magnetization_def int_true_div_def S_def
    by (simp only: if_False ebind_Inr of_int_1)
  then have avg: "average_magnetization spins N = Inr m"
    by (simp only: rS m_def p_def r_def q_def)
  have e1: "\<bar>p - mean\<bar> \<le> a * eps"
  proof -
    have "p - mean = (r - q) * of_int S"
      by (simp add: p_def mean algebra_simps)
    then have "\<bar>p - mean\<bar> = \<bar>r - q\<bar> * \<bar>of_int S\<bar>"
      by (simp add: abs_mult)
    also have "\<dots> \<le> q * eps * \<bar>of_int S\<bar>"
      using rq by (intro mult_right_mono) simp_all
    also have "\<dots> = a * eps"
      using qpos by (simp add: a_def mean abs_mult)
    finally show ?thesis .
  qed
  have e2: "\<bar>p\<bar> \<le> a + a * eps"
    using e1 unfolding a_def by linarith
  have e3: "\<bar>m - p\<bar> \<le> \<bar>p\<bar> * eps"
  proof (cases "S = 0")
    case True
    then show ?thesis
      by (simp add: m_def p_def round_double_def)
  next
    case False
    then have "1 \<le> \<bar>S\<bar>"
      by linarith
    then have "rat_of_int 1 \<le> rat_of_int \<bar>S\<bar>"
      by (simp only: of_int_le_iff)
    then have S1: "1 \<le> \<bar>rat_of_int S\<bar>"
      by simp
    have "q - q * eps \<le> r"
      using rq by linarith
    moreover have "1 / 2 ^ 53 \<le> q - q * eps"
      using qlo by (simp add: eps_def)
    ultimately have r1: "1 / 2 ^ 53 \<le> r"
      by linarith
    then have "1 / 2 ^ 53 * 1 \<le> \<bar>r\<bar> * \<bar>rat_of_int S\<bar>"
      using S1 by (intro mult_mono) simp_all
    then have "1 / 2 ^ 53 \<le> \<bar>p\<bar>"
      by (simp add: p_def abs_mult)
    moreover have "pow2 (- 1022) \<le> 1 / 2 ^ 53"
      by (simp add: pow2_def field_simps)
    ultimately have "pow2 (- 1022) \<le> \<bar>p\<bar>"
      by linarith
    from round_double_error [OF this] show ?thesis
      by (simp add: m_def eps_def)
  qed
  have a0: "0 \<le> a"
    by (simp add: a_def)
  have "\<bar>m - mean\<bar> \<le> \<bar>m - p\<bar> + \<bar>p - mean\<bar>"
    by linarith
  also have "\<dots> \<le> \<bar>p\<bar> * eps + a * eps"
    using e3 e1 by linarith
  also have "\<dots> \<le> (a + a * eps) * eps + a * eps"
    using e2 by (simp add: eps_def)
  also have "\<dots> = a * (eps * (2 + eps))"
    by (simp add: algebra_simps)
  also have "\<dots> \<le> a * (1 / 2 ^ 51)"
    using a0 by (intro mult_left_mono) (simp_all add: eps_def)
  finally have "\<bar>m - mean\<bar> \<le> a / 2 ^ 51"
    by simp
  with avg show ?thesis
    unfolding a_def mean_def S_def by blast
qed

text \<open>
  C9, as the code has it. \<^verbatim>\<open>average_magnetization\<close> only reads the lattice: the model
  returns a number and no lattice. On an \<open>N \<times> N\<close> lattice of spins \<open>\<plusminus>1\<close> with
  \<open>1 \<le> N \<le> 2\<^sup>2\<^sup>6\<close> it returns a value, which is the sum of all cells divided by \<open>N\<^sup>2\<close> up to
  the two roundings of the double arithmetic: a relative error of at most \<open>2\<^sup>-\<^sup>5\<^sup>1\<close>. When
  the side is a power of two no rounding occurs: the value is exact, and so exactly \<open>1\<close>
  when every cell is \<open>+1\<close> and exactly \<open>-1\<close> when every cell is \<open>-1\<close>. Exactness is not
  claimed for every \<open>N\<close>: that fails below.
\<close>

theorem average_magnetization_value:
  assumes L: "is_lattice N spins" and N: "1 \<le> N" "N \<le> 2 ^ 26"
  shows "\<exists>m. average_magnetization spins N = Inr m
       \<and> \<bar>m - of_int (sum_list (map sum_list spins)) / of_int (N ^ 2)\<bar>
           \<le> \<bar>of_int (sum_list (map sum_list spins)) / of_int (N ^ 2)\<bar> / 2 ^ 51
       \<and> ((\<exists>k. N = 2 ^ k) \<longrightarrow>
            m = of_int (sum_list (map sum_list spins)) / of_int (N ^ 2)
            \<and> ((\<forall>row\<in>set spins. \<forall>x\<in>set row. x = 1) \<longrightarrow> m = 1)
            \<and> ((\<forall>row\<in>set spins. \<forall>x\<in>set row. x = - 1) \<longrightarrow> m = - 1))"
proof -
  from average_magnetization_error [OF L N] obtain m where
    avg: "average_magnetization spins N = Inr m"
    and err: "\<bar>m - of_int (sum_list (map sum_list spins)) / of_int (N ^ 2)\<bar>
           \<le> \<bar>of_int (sum_list (map sum_list spins)) / of_int (N ^ 2)\<bar> / 2 ^ 51"
    by blast
  have "m = of_int (sum_list (map sum_list spins)) / of_int (N ^ 2)
        \<and> ((\<forall>row\<in>set spins. \<forall>x\<in>set row. x = 1) \<longrightarrow> m = 1)
        \<and> ((\<forall>row\<in>set spins. \<forall>x\<in>set row. x = - 1) \<longrightarrow> m = - 1)"
    if "N = 2 ^ k" for k
  proof -
    from N(2) that have "(2 :: int) ^ k \<le> 2 ^ 26"
      by simp
    then have "k \<le> 26"
      by (rule power_le_imp_le_exp [rotated]) simp
    from average_magnetization_exact [OF L that this] show ?thesis
      unfolding avg sum.inject .
  qed
  with avg err show ?thesis
    by blast
qed

theorem average_magnetization_value_witness:
  "is_lattice 2 [[1, 1], [1, 1]] \<and> average_magnetization [[1, 1], [1, 1]] 2 = Inr 1"
proof -
  have L: "is_lattice 2 [[1, 1], [1, 1]]"
    by (simp add: is_lattice_def)
  from average_magnetization_value [OF L] obtain m where
    avg: "average_magnetization [[1, 1], [1, 1]] 2 = Inr m"
    and one: "(\<exists>k. (2 :: int) = 2 ^ k) \<longrightarrow>
        (\<forall>row\<in>set [[1, 1], [1, 1 :: int]]. \<forall>x\<in>set row. x = 1) \<longrightarrow> m = 1"
    by auto
  have "(2 :: int) = 2 ^ 1"
    by simp
  then have "\<exists>k. (2 :: int) = 2 ^ k"
    by (rule exI)
  with one have "m = 1"
    by simp
  with L avg show ?thesis
    by simp
qed

text \<open>
  On the 7 by 7 lattice of spins \<open>+1\<close> the double nearest to \<open>1/49\<close>, multiplied by \<open>49\<close>,
  rounds to \<open>1 - 2\<^sup>-\<^sup>5\<^sup>3\<close>, printed \<^verbatim>\<open>0.9999999999999999\<close>.
\<close>

theorem average_magnetization_counterexample:
  "average_magnetization (replicate 7 (replicate 7 1)) 7 = Inr (1 - 1 / 2 ^ 53)"
  by code_simp

end
